theory Spec2Isabelle
  imports Main "HOL-Library.Word" "HOL-Library.Sublist"
begin

unbundle bit_operations_syntax

section \<open>MySnooze: a shallow embedding of src/MySnooze.cpp\<close>

text \<open>
  The program runs on an 8-bit AVR: \<open>uint8_t\<close> and \<open>int8_t\<close> are 8-bit words (an
  \<open>int8_t\<close> is read with \<open>sint\<close>; the conversion between the two keeps the bits),
  \<open>unsigned long\<close> and \<open>uint32_t\<close> are 32-bit words.
\<close>

type_synonym u8 = "8 word"
type_synonym i8 = "8 word"
type_synonym u32 = "32 word"

subsection \<open>Constants\<close>

text \<open>\<open>WDTO_SLEEP_FOREVER\<close> is defined in MySnooze.cpp (line 49).\<close>

definition WDTO_SLEEP_FOREVER :: u8 where "WDTO_SLEEP_FOREVER = 0xFF"

text \<open>
  The watchdog selectors are the constants of avr-libc's \<open>avr/wdt.h\<close>, and \<open>ADEN\<close> is
  the bit number of the ADC enable bit in \<open>ADCSRA\<close> (\<open>avr/io.h\<close>).
\<close>

definition WDTO_15MS :: u8 where "WDTO_15MS = 0"
definition WDTO_30MS :: u8 where "WDTO_30MS = 1"
definition WDTO_60MS :: u8 where "WDTO_60MS = 2"
definition WDTO_120MS :: u8 where "WDTO_120MS = 3"
definition WDTO_250MS :: u8 where "WDTO_250MS = 4"
definition WDTO_500MS :: u8 where "WDTO_500MS = 5"
definition WDTO_1S :: u8 where "WDTO_1S = 6"
definition WDTO_2S :: u8 where "WDTO_2S = 7"
definition WDTO_4S :: u8 where "WDTO_4S = 8"
definition WDTO_8S :: u8 where "WDTO_8S = 9"

definition ADEN :: nat where "ADEN = 7"

subsection \<open>Observable events\<close>

text \<open>
  Two ghost logs record what the program does to the outside.
  \<open>PowerDown wdto f f'\<close> is one hardware sleep cycle (one call of \<open>_doPowerDown\<close>) with
  watchdog selector \<open>wdto\<close>, entered with the wake flag holding \<open>f\<close> and left with it
  holding \<open>f'\<close>; \<open>Tick r\<close> is one invocation of the callback \<open>tick()\<close>, which returned
  \<open>r\<close>. The calls into the MySensors library made by \<open>snooze\<close> are logged separately.
\<close>

datatype event = PowerDown u8 u8 u8 | Tick i8

datatype indication = INDICATION_SLEEP | INDICATION_WAKEUP

datatype call = Process | SendHeartbeat | Wait u32 | TransportDisable | SetIndication indication

subsection \<open>Machine state\<close>

record mcu =
  wokeUpWhy :: u8
  timer0_millis :: u32
  ADCSRA :: u8
  ADENsave :: u8
  WDTCSR :: u8
  trace :: "event list"
  calls :: "call list"

subsection \<open>The environment\<close>

text \<open>
  Everything the file takes from outside is a field of the environment.
  \<^item> \<open>isr e h\<close>: what the interrupt handlers that ran up to the end of a hardware sleep
    left in \<open>wokeUpWhy\<close>, \<open>None\<close> when none of them wrote it (a watchdog timeout, or an
    interrupt whose handler leaves the flag alone). The argument is the trace so far, so
    the answer may differ from sleep to sleep in any way. A handler that runs between
    two sleeps is seen at the end of the next one.
  \<^item> \<open>tick e\<close>: the weak symbol \<open>tick\<close>; \<open>None\<close> when the application does not define
    it, otherwise the value returned by the call made after the given trace. The
    callback is application code; it is taken to leave the variables of this file alone.
  \<^item> \<open>isTransportReady e\<close> and \<open>hwMillis e\<close>: the answers of the MySensors functions of
    these names, depending on the library calls made so far. The clock that \<open>snooze\<close>
    reads is advanced by the timer interrupt while it waits, so its readings come from
    the environment.
  \<^item> the four \<open>MY_\<close> constants are macros of the MySensors library (MySensorsCore.h,
    MyConfig.h), which is not part of this repository.
\<close>

record env =
  isr :: "event list \<Rightarrow> u8 option"
  tick :: "(event list \<Rightarrow> i8) option"
  isTransportReady :: "call list \<Rightarrow> bool"
  hwMillis :: "call list \<Rightarrow> u32"
  MY_WAKE_UP_BY_TIMER :: i8
  MY_SLEEP_NOT_POSSIBLE :: i8
  MY_SLEEP_TRANSPORT_RECONNECT_TIMEOUT_MS :: u32
  MY_SMART_SLEEP_WAIT_DURATION_MS :: u32

subsection \<open>Local functions (MySnooze.cpp, lines 69-148)\<close>

definition pre_doPowerDown :: "mcu \<Rightarrow> mcu" where
  "pre_doPowerDown s =
     s\<lparr>ADENsave := ADCSRA s AND push_bit ADEN 1,
       ADCSRA := ADCSRA s AND NOT (push_bit ADEN 1)\<rparr>"

definition post_doPowerDown :: "mcu \<Rightarrow> mcu" where
  "post_doPowerDown s = s\<lparr>ADCSRA := ADCSRA s OR ADENsave s\<rparr>"

text \<open>
  The three functions \<open>_pre_doPowerDown\<close>, \<open>_post_doPowerDown\<close> and \<open>_doPowerDown\<close> lose
  their leading underscore, which a name cannot start with here.

  \<open>_doPowerDown\<close>: the watchdog is armed with \<open>wdto\<close> (or disabled for
  \<open>WDTO_SLEEP_FOREVER\<close>), the processor sleeps, and \<open>WDTCSR\<close> is written back from
  \<open>WDTsave\<close>. The function itself never assigns \<open>wokeUpWhy\<close>; only the interrupt
  handlers of the environment do, while the processor sleeps.
\<close>

definition doPowerDown :: "env \<Rightarrow> u8 \<Rightarrow> mcu \<Rightarrow> mcu" where
  "doPowerDown e wdto s =
     (let WDTsave = WDTCSR s;
          woke = (case isr e (trace s) of None \<Rightarrow> wokeUpWhy s | Some v \<Rightarrow> v)
      in s\<lparr>wokeUpWhy := woke,
           WDTCSR := WDTsave,
           trace := trace s @ [PowerDown wdto (wokeUpWhy s) woke]\<rparr>)"

definition myPowerDown :: "env \<Rightarrow> u8 \<Rightarrow> u32 \<Rightarrow> mcu \<Rightarrow> i8 \<times> mcu" where
  "myPowerDown e wdto ms s =
     (let s1 = doPowerDown e wdto s
      in if wokeUpWhy s1 \<noteq> 0 then (wokeUpWhy s1, s1)
         else (0, s1\<lparr>timer0_millis := timer0_millis s1 + ms\<rparr>))"

subsection \<open>The scheduler (MySnooze.cpp, lines 161-212)\<close>

text \<open>The expression \<open>tick ? tick() : 0\<close>.\<close>

definition call_tick :: "env \<Rightarrow> mcu \<Rightarrow> i8 \<times> mcu" where
  "call_tick e s =
     (case tick e of
        None \<Rightarrow> (0, s)
      | Some f \<Rightarrow> (f (trace s), s\<lparr>trace := trace s @ [Tick (f (trace s))]\<rparr>))"

text \<open>
  A part of the body of \<open>myInternalSleep\<close> either returns from the function with a
  value (\<open>Inl why\<close>) or falls through with the remaining duration (\<open>Inr ms\<close>).
\<close>

text \<open>The loop \<open>while (ms >= 8000)\<close> of lines 170-174.\<close>

function loop8000 :: "env \<Rightarrow> u32 \<Rightarrow> mcu \<Rightarrow> (i8 + u32) \<times> mcu" where
  "loop8000 e ms s =
     (if 8000 \<le> ms then
        (let (why, s1) = myPowerDown e WDTO_8S 8000 s in
         if why \<noteq> 0 then (Inl why, s1)
         else (let (why2, s2) = call_tick e s1 in
               if why2 \<noteq> 0 then (Inl why2, s2)
               else loop8000 e (ms - 8000) s2))
      else (Inr ms, s))"
  by pat_completeness auto
termination
  by (relation "measure (\<lambda>(e, ms, s). unat ms)") (auto simp: unat_sub word_le_nat_alt)

declare loop8000.simps [simp del]

text \<open>
  One of the nine statements of lines 175-210:
  \<open>if (ms >= q) { if ((why = myPowerDown(wdto, q))) return why; ms -= q; }\<close>.
\<close>

definition nap :: "env \<Rightarrow> u8 \<Rightarrow> u32 \<Rightarrow> u32 \<Rightarrow> mcu \<Rightarrow> (i8 + u32) \<times> mcu" where
  "nap e wdto q ms s =
     (if q \<le> ms then
        (let (why, s1) = myPowerDown e wdto q s in
         if why \<noteq> 0 then (Inl why, s1) else (Inr (ms - q), s1))
      else (Inr ms, s))"

text \<open>Sequencing: a \<open>return\<close> skips the statements that follow it.\<close>

definition andThen ::
  "(i8 + u32) \<times> mcu \<Rightarrow> (u32 \<Rightarrow> mcu \<Rightarrow> (i8 + u32) \<times> mcu) \<Rightarrow> (i8 + u32) \<times> mcu" where
  "andThen r f = (case r of (Inl why, s) \<Rightarrow> (Inl why, s) | (Inr ms, s) \<Rightarrow> f ms s)"

text \<open>
  \<open>myInternalSleep\<close>. The call \<open>MY_SERIALDEVICE.flush()\<close> at its start touches none
  of the state modelled here.
\<close>

definition myInternalSleep :: "env \<Rightarrow> u32 \<Rightarrow> mcu \<Rightarrow> i8 \<times> mcu" where
  "myInternalSleep e ms s =
     (let r0 = loop8000 e ms s;
          r1 = andThen r0 (nap e WDTO_4S 4000);
          r2 = andThen r1 (nap e WDTO_2S 2000);
          r3 = andThen r2 (nap e WDTO_1S 1000);
          r4 = andThen r3 (nap e WDTO_500MS 500);
          r5 = andThen r4 (nap e WDTO_250MS 250);
          r6 = andThen r5 (nap e WDTO_120MS 120);
          r7 = andThen r6 (nap e WDTO_60MS 60);
          r8 = andThen r7 (nap e WDTO_30MS 30);
          r9 = andThen r8 (nap e WDTO_15MS 15)
      in case r9 of
           (Inl why, s') \<Rightarrow> (why, s')
         | (Inr ms', s') \<Rightarrow> call_tick e s')"

subsection \<open>\<open>mySleep\<close> (lines 218-242)\<close>

definition mySleep :: "env \<Rightarrow> u32 \<Rightarrow> mcu \<Rightarrow> i8 \<times> mcu" where
  "mySleep e ms s =
     (let s0 = s\<lparr>wokeUpWhy := 0\<rparr>;
          s1 = pre_doPowerDown s0;
          (why, s2) =
            (if 0 < ms then myInternalSleep e ms s1
             else (let s' = doPowerDown e WDTO_SLEEP_FOREVER s1 in (wokeUpWhy s', s')));
          s3 = s2\<lparr>wokeUpWhy := 0\<rparr>;
          s4 = post_doPowerDown s3
      in (if why \<noteq> 0 then why else MY_WAKE_UP_BY_TIMER e, s4))"

subsection \<open>\<open>snooze\<close> (lines 257-299)\<close>

definition process :: "mcu \<Rightarrow> mcu" where
  "process s = s\<lparr>calls := calls s @ [Process]\<rparr>"

text \<open>
  The loop of lines 266-273. It runs for as long as the transport is not ready and the
  clock read by \<open>hwMillis\<close> has not reached either bound, which may be forever: not
  returning is the value \<open>None\<close>.
\<close>

partial_function (option) wait_ready ::
  "env \<Rightarrow> u32 \<Rightarrow> u32 \<Rightarrow> u32 \<Rightarrow> mcu \<Rightarrow> (u32 \<times> mcu) option" where
  "wait_ready e sleepEnterMS sleepingTimeMS sleepDeltaMS s =
     (if \<not> isTransportReady e (calls s)
         \<and> sleepDeltaMS < sleepingTimeMS
         \<and> sleepDeltaMS < MY_SLEEP_TRANSPORT_RECONNECT_TIMEOUT_MS e
      then wait_ready e sleepEnterMS sleepingTimeMS
             (hwMillis e (calls (process s)) - sleepEnterMS) (process s)
      else Some (sleepDeltaMS, s))"

declare wait_ready.simps [code]

text \<open>Lines 284-298: what \<open>snooze\<close> does once it has decided to sleep.\<close>

definition snooze_sleep :: "env \<Rightarrow> u32 \<Rightarrow> bool \<Rightarrow> mcu \<Rightarrow> i8 \<times> mcu" where
  "snooze_sleep e sleepingTimeMS smartSleep s =
     (let s1 = (if smartSleep
                then s\<lparr>calls := calls s @ [SendHeartbeat, Wait (MY_SMART_SLEEP_WAIT_DURATION_MS e)]\<rparr>
                else s);
          s2 = s1\<lparr>calls := calls s1 @ [TransportDisable, SetIndication INDICATION_SLEEP]\<rparr>;
          (result, s3) = mySleep e sleepingTimeMS s2
      in (result, s3\<lparr>calls := calls s3 @ [SetIndication INDICATION_WAKEUP]\<rparr>))"

definition snooze :: "env \<Rightarrow> u32 \<Rightarrow> bool \<Rightarrow> mcu \<Rightarrow> (i8 \<times> mcu) option" where
  "snooze e sleepingMS smartSleep s =
     (if \<not> isTransportReady e (calls s) then
        (case wait_ready e (hwMillis e (calls s)) sleepingMS 0 s of
           None \<Rightarrow> None
         | Some (sleepDeltaMS, s1) \<Rightarrow>
             if sleepDeltaMS < sleepingMS
             then Some (snooze_sleep e (sleepingMS - sleepDeltaMS) smartSleep s1)
             else Some (MY_SLEEP_NOT_POSSIBLE e, s1))
      else Some (snooze_sleep e sleepingMS smartSleep s))"


section \<open>Observations on the trace\<close>

text \<open>
  An event ends the request when it carries a non-zero outcome: a hardware sleep left
  with the wake flag set, or a callback that returned non-zero.
\<close>

fun stops :: "event \<Rightarrow> bool" where
  "stops (PowerDown wdto f f') = (f' \<noteq> 0)"
| "stops (Tick r) = (r \<noteq> 0)"

fun outcome :: "event \<Rightarrow> i8" where
  "outcome (PowerDown wdto f f') = f'"
| "outcome (Tick r) = r"

fun uninterrupted :: "event list \<Rightarrow> bool" where
  "uninterrupted [] = True"
| "uninterrupted (ev # evs) = (\<not> stops ev \<and> uninterrupted evs)"

text \<open>The kind of an event: a quantum with its watchdog selector, or a callback.\<close>

datatype act = Quantum u8 | Callback

fun shape :: "event \<Rightarrow> act" where
  "shape (PowerDown wdto f f') = Quantum wdto"
| "shape (Tick r) = Callback"

fun selectors :: "act list \<Rightarrow> u8 list" where
  "selectors [] = []"
| "selectors (Quantum wdto # p) = wdto # selectors p"
| "selectors (Callback # p) = selectors p"

definition quanta :: "event list \<Rightarrow> u8 list" where
  "quanta evs = selectors (map shape evs)"

definition ticks :: "event list \<Rightarrow> nat" where
  "ticks evs = count_list (map shape evs) Callback"

text \<open>The wake flag as each hardware sleep of the trace found it on entry.\<close>

fun entry_flags :: "event list \<Rightarrow> u8 list" where
  "entry_flags [] = []"
| "entry_flags (PowerDown wdto f f' # evs) = f # entry_flags evs"
| "entry_flags (Tick r # evs) = entry_flags evs"

text \<open>
  The nominal duration of a watchdog selector in milliseconds, as \<open>myInternalSleep\<close>
  pairs them in its calls of \<open>myPowerDown\<close>; the indefinite sleep has none.
\<close>

definition wdto_ms :: "u8 \<Rightarrow> nat" where
  "wdto_ms wdto =
     (if wdto = WDTO_8S then 8000 else if wdto = WDTO_4S then 4000
      else if wdto = WDTO_2S then 2000 else if wdto = WDTO_1S then 1000
      else if wdto = WDTO_500MS then 500 else if wdto = WDTO_250MS then 250
      else if wdto = WDTO_120MS then 120 else if wdto = WDTO_60MS then 60
      else if wdto = WDTO_30MS then 30 else if wdto = WDTO_15MS then 15 else 0)"

definition slept :: "event list \<Rightarrow> nat" where
  "slept evs = sum_list (map wdto_ms (quanta evs))"

text \<open>The events logged between two states, and those of one run of each function.\<close>

definition new_events :: "mcu \<Rightarrow> mcu \<Rightarrow> event list" where
  "new_events s s' = drop (length (trace s)) (trace s')"

definition run_events :: "env \<Rightarrow> u32 \<Rightarrow> mcu \<Rightarrow> event list" where
  "run_events e ms s = new_events s (snd (myInternalSleep e ms s))"

definition sleep_events :: "env \<Rightarrow> u32 \<Rightarrow> mcu \<Rightarrow> event list" where
  "sleep_events e ms s = new_events s (snd (mySleep e ms s))"

text \<open>
  The time \<open>snooze\<close> has measured after \<open>n\<close> passes of its waiting loop: the variable
  \<open>sleepDeltaMS\<close>, which starts at \<open>d0\<close> and is then read from the clock.
\<close>

definition waited_from :: "env \<Rightarrow> u32 \<Rightarrow> u32 \<Rightarrow> call list \<Rightarrow> nat \<Rightarrow> u32" where
  "waited_from e t0 d0 cs n = (if n = 0 then d0 else hwMillis e (cs @ replicate n Process) - t0)"

definition waited :: "env \<Rightarrow> mcu \<Rightarrow> nat \<Rightarrow> u32" where
  "waited e s n = waited_from e (hwMillis e (calls s)) 0 (calls s) n"

text \<open>
  The state in which \<open>snooze\<close> calls \<open>mySleep\<close>: lines 284-292 have sent the heartbeat
  and waited (when \<open>smartSleep\<close> is set), disabled the transport and set the indication.
\<close>

definition announce :: "env \<Rightarrow> bool \<Rightarrow> mcu \<Rightarrow> mcu" where
  "announce e smartSleep s =
     s\<lparr>calls := calls s
          @ (if smartSleep then [SendHeartbeat, Wait (MY_SMART_SLEEP_WAIT_DURATION_MS e)] else [])
          @ [TransportDisable, SetIndication INDICATION_SLEEP]\<rparr>"

section \<open>The schedule of a request\<close>

text \<open>
  What a request of \<open>m\<close> milliseconds does when nothing ends it early: \<open>m div 8000\<close>
  times an 8 s quantum followed by the callback, then each shorter quantum of the table
  at most once, largest first, then the callback once more. \<open>tk\<close> tells whether the
  application defines \<open>tick\<close>.
\<close>

definition has_tick :: "env \<Rightarrow> bool" where
  "has_tick e \<longleftrightarrow> tick e \<noteq> None"

definition cbk :: "bool \<Rightarrow> act list" where
  "cbk tk = (if tk then [Callback] else [])"

definition step_plan :: "u8 \<Rightarrow> nat \<Rightarrow> nat \<Rightarrow> act list" where
  "step_plan wdto q m = (if q \<le> m then [Quantum wdto] else [])"

definition step_rem :: "nat \<Rightarrow> nat \<Rightarrow> nat" where
  "step_rem q m = (if q \<le> m then m - q else m)"

definition table :: "(u8 \<times> nat) list" where
  "table = [(WDTO_4S, 4000), (WDTO_2S, 2000), (WDTO_1S, 1000), (WDTO_500MS, 500),
            (WDTO_250MS, 250), (WDTO_120MS, 120), (WDTO_60MS, 60), (WDTO_30MS, 30),
            (WDTO_15MS, 15)]"

definition durations :: "nat list" where
  "durations = [4000, 2000, 1000, 500, 250, 120, 60, 30, 15]"

definition loop_plan :: "bool \<Rightarrow> nat \<Rightarrow> act list" where
  "loop_plan tk m = concat (replicate (m div 8000) (Quantum WDTO_8S # cbk tk))"

fun chain_plan :: "nat \<Rightarrow> (u8 \<times> nat) list \<Rightarrow> act list" where
  "chain_plan m [] = []"
| "chain_plan m ((wdto, q) # t) = step_plan wdto q m @ chain_plan (step_rem q m) t"

definition plan :: "bool \<Rightarrow> nat \<Rightarrow> act list" where
  "plan tk m = loop_plan tk m @ chain_plan (m mod 8000) table @ cbk tk"

text \<open>The milliseconds the shorter quanta cover of a remainder \<open>m\<close>.\<close>

fun chain_sum :: "nat \<Rightarrow> nat list \<Rightarrow> nat" where
  "chain_sum m [] = 0"
| "chain_sum m (q # t) = (if q \<le> m then q + chain_sum (m - q) t else chain_sum m t)"

fun left_bound :: "nat \<Rightarrow> nat list \<Rightarrow> nat" where
  "left_bound b [] = b"
| "left_bound b (q # t) = left_bound (max q (b - q)) t"

fun superinc :: "nat list \<Rightarrow> bool" where
  "superinc [] = True"
| "superinc (q # t) = (sum_list t < q \<and> superinc t)"

section \<open>Invariants of a run\<close>

text \<open>
  The flag is handed from one hardware sleep to the next: each sleep is entered with
  the value the previous one was left with.
\<close>

fun flows :: "u8 \<Rightarrow> event list \<Rightarrow> bool" where
  "flows f [] = True"
| "flows f (PowerDown wdto f1 f2 # evs) = (f1 = f \<and> flows f2 evs)"
| "flows f (Tick r # evs) = flows f evs"

fun final_flag :: "u8 \<Rightarrow> event list \<Rightarrow> u8" where
  "final_flag f [] = f"
| "final_flag f (PowerDown wdto f1 f2 # evs) = final_flag f2 evs"
| "final_flag f (Tick r # evs) = final_flag f evs"

text \<open>
  A part of the function either runs through its schedule with no event that stops, or
  is stopped by its last event, after an initial segment of the schedule.
\<close>

definition completes :: "event list \<Rightarrow> act list \<Rightarrow> bool" where
  "completes evs pl \<longleftrightarrow> map shape evs = pl \<and> (\<forall>ev \<in> set evs. \<not> stops ev)"

definition stopped :: "i8 \<Rightarrow> event list \<Rightarrow> act list \<Rightarrow> bool" where
  "stopped why evs pl \<longleftrightarrow>
     evs \<noteq> [] \<and> prefix (map shape evs) pl \<and> (\<forall>ev \<in> set (butlast evs). \<not> stops ev)
     \<and> stops (last evs) \<and> outcome (last evs) = why"

definition frag :: "mcu \<Rightarrow> act list \<Rightarrow> nat \<Rightarrow> (i8 + u32) \<times> mcu \<Rightarrow> bool" where
  "frag s pl rem r \<longleftrightarrow>
     (\<exists>evs. trace (snd r) = trace s @ evs
        \<and> flows (wokeUpWhy s) evs
        \<and> wokeUpWhy (snd r) = final_flag (wokeUpWhy s) evs
        \<and> (case fst r of Inr ms \<Rightarrow> unat ms = rem \<and> completes evs pl
                       | Inl why \<Rightarrow> stopped why evs pl))"

section \<open>Example environments\<close>

text \<open>
  \<open>quiet_env\<close>: no handler ever writes the flag, \<open>tick\<close> is defined and returns 0, the
  transport is never ready, every pass of the waiting loop takes 2500 ms, and the
  MySensors constants have the values of that library. \<open>irq_env\<close> has a handler write 5
  during the second hardware sleep; in \<open>tick_env\<close> the second call of \<open>tick\<close> returns 3; in \<open>wake_env\<close> a handler writes 5
  during every hardware sleep. \<open>st_stale\<close> is a state in which a flag of 7 is pending.
\<close>

definition quiet_env :: env where
  "quiet_env = \<lparr>isr = (\<lambda>h. None), tick = Some (\<lambda>h. 0), isTransportReady = (\<lambda>c. False),
     hwMillis = (\<lambda>c. 2500 * of_nat (length c)), MY_WAKE_UP_BY_TIMER = - 1,
     MY_SLEEP_NOT_POSSIBLE = - 2, MY_SLEEP_TRANSPORT_RECONNECT_TIMEOUT_MS = 10000,
     MY_SMART_SLEEP_WAIT_DURATION_MS = 500\<rparr>"

definition irq_env :: env where
  "irq_env = quiet_env\<lparr>isr := (\<lambda>h. if length h = 2 then Some 5 else None)\<rparr>"

definition tick_env :: env where
  "tick_env = quiet_env\<lparr>tick := Some (\<lambda>h. if length h = 3 then 3 else 0)\<rparr>"

definition st0 :: mcu where
  "st0 = \<lparr>wokeUpWhy = 0, timer0_millis = 0, ADCSRA = 0x87, ADENsave = 0, WDTCSR = 0,
     trace = [], calls = []\<rparr>"

definition wake_env :: env where
  "wake_env = quiet_env\<lparr>isr := (\<lambda>h. Some 5)\<rparr>"

definition st_stale :: mcu where
  "st_stale = st0\<lparr>wokeUpWhy := 7\<rparr>"


section \<open>Lemmas\<close>

subsection \<open>Composition of runs\<close>

lemma flows_append: "flows f (xs @ ys) \<longleftrightarrow> flows f xs \<and> flows (final_flag f xs) ys"
  by (induction f xs rule: flows.induct) auto

lemma final_flag_append: "final_flag f (xs @ ys) = final_flag (final_flag f xs) ys"
  by (induction f xs rule: final_flag.induct) auto

lemma completes_append: "completes xs p \<Longrightarrow> completes ys q \<Longrightarrow> completes (xs @ ys) (p @ q)"
  by (auto simp: completes_def)

lemma completes_stopped: "completes xs p \<Longrightarrow> stopped why ys q \<Longrightarrow> stopped why (xs @ ys) (p @ q)"
  by (auto simp: completes_def stopped_def butlast_append)

lemma stopped_extend: "stopped why xs p \<Longrightarrow> stopped why xs (p @ q)"
  by (auto simp: stopped_def)

lemma myPowerDown_cases:
  assumes "myPowerDown e wdto q s = (why, s1)"
  shows "trace s1 = trace s @ [PowerDown wdto (wokeUpWhy s) why]" and "wokeUpWhy s1 = why"
  using assms by (auto simp: myPowerDown_def doPowerDown_def Let_def split: if_splits)

lemma call_tick_cases:
  assumes "call_tick e s = (r, s1)"
  shows "wokeUpWhy s1 = wokeUpWhy s"
    and "\<exists>evs. trace s1 = trace s @ evs \<and> map shape evs = cbk (has_tick e) \<and> (\<forall>ev \<in> set evs. outcome ev = r)
           \<and> (evs = [] \<longrightarrow> r = 0) \<and> flows f evs \<and> final_flag f evs = f"
  using assms by (auto simp: call_tick_def cbk_def has_tick_def split: option.splits)

lemma frag_nap: "frag s (step_plan wdto (unat q) (unat ms)) (step_rem (unat q) (unat ms)) (nap e wdto q ms s)"
proof (cases "q \<le> ms")
  case False
  then show ?thesis
    by (simp add: nap_def frag_def step_plan_def step_rem_def completes_def word_le_nat_alt)
next
  case True
  obtain why s1 where mp: "myPowerDown e wdto q s = (why, s1)"
    by (cases "myPowerDown e wdto q s")
  note st = myPowerDown_cases [OF mp]
  show ?thesis
  proof (cases "why = 0")
    case True
    with \<open>q \<le> ms\<close> mp st show ?thesis
      by (simp add: nap_def frag_def step_plan_def step_rem_def completes_def word_le_nat_alt unat_sub)
  next
    case False
    with \<open>q \<le> ms\<close> mp st show ?thesis
      by (simp add: nap_def frag_def step_plan_def step_rem_def stopped_def word_le_nat_alt)
  qed
qed

lemma frag_seq:
  assumes t1: "trace s1 = trace s @ evs1" and fu: "completes evs1 p1" and f1: "flows (wokeUpWhy s) evs1"
    and w1: "wokeUpWhy s1 = final_flag (wokeUpWhy s) evs1" and fr: "frag s1 p2 rem r"
  shows "frag s (p1 @ p2) rem r"
proof -
  from fr obtain evs2 where
    t2: "trace (snd r) = trace s1 @ evs2" and f2: "flows (wokeUpWhy s1) evs2"
    and w2: "wokeUpWhy (snd r) = final_flag (wokeUpWhy s1) evs2"
    and c2: "case fst r of Inr ms \<Rightarrow> unat ms = rem \<and> completes evs2 p2 | Inl why \<Rightarrow> stopped why evs2 p2"
    by (auto simp: frag_def)
  have "trace (snd r) = trace s @ (evs1 @ evs2)" using t1 t2 by simp
  moreover have "flows (wokeUpWhy s) (evs1 @ evs2)" using f1 f2 w1 by (simp add: flows_append)
  moreover have "wokeUpWhy (snd r) = final_flag (wokeUpWhy s) (evs1 @ evs2)"
    using w1 w2 by (simp add: final_flag_append)
  moreover have "case fst r of Inr ms \<Rightarrow> unat ms = rem \<and> completes (evs1 @ evs2) (p1 @ p2)
      | Inl why \<Rightarrow> stopped why (evs1 @ evs2) (p1 @ p2)"
    using c2 fu by (auto split: sum.splits intro: completes_append completes_stopped)
  ultimately show ?thesis
    unfolding frag_def by blast
qed

lemma frag_andThen:
  assumes "frag s p1 rem1 r1"
    and "\<And>ms1 s1. unat ms1 = rem1 \<Longrightarrow> frag s1 p2 rem2 (f ms1 s1)"
  shows "frag s (p1 @ p2) rem2 (andThen r1 f)"
proof -
  obtain res s1 where r1: "r1 = (res, s1)" by (cases r1)
  from assms(1) r1 obtain evs1 where
    t1: "trace s1 = trace s @ evs1" and f1: "flows (wokeUpWhy s) evs1"
    and w1: "wokeUpWhy s1 = final_flag (wokeUpWhy s) evs1"
    and c1: "case res of Inr ms \<Rightarrow> unat ms = rem1 \<and> completes evs1 p1 | Inl why \<Rightarrow> stopped why evs1 p1"
    by (auto simp: frag_def)
  show ?thesis
  proof (cases res)
    case (Inl why)
    with r1 t1 f1 w1 c1 show ?thesis
      by (auto simp: frag_def andThen_def intro: stopped_extend)
  next
    case (Inr ms1)
    with c1 have u: "unat ms1 = rem1" and fu: "completes evs1 p1" by auto
    from frag_seq [OF t1 fu f1 w1 assms(2) [OF u]] show ?thesis
      using r1 Inr by (simp add: andThen_def)
  qed
qed

lemma loop_plan_less: "m < 8000 \<Longrightarrow> loop_plan tk m = []"
  by (simp add: loop_plan_def)

lemma loop_plan_step: "8000 \<le> m \<Longrightarrow> loop_plan tk m = (Quantum WDTO_8S # cbk tk) @ loop_plan tk (m - 8000)"
proof -
  assume "8000 \<le> m"
  then have "m div 8000 = Suc ((m - 8000) div 8000)"
    by (simp add: le_div_geq)
  then show ?thesis by (simp add: loop_plan_def)
qed

lemma frag_loop8000: "frag s (loop_plan (has_tick e) (unat ms)) (unat ms mod 8000) (loop8000 e ms s)"
proof (induction e ms s rule: loop8000.induct)
  case (1 e ms s)
  show ?case
  proof (cases "8000 \<le> ms")
    case False
    then have "unat ms < 8000" by (simp add: word_le_nat_alt)
    with False show ?thesis
      by (simp add: loop8000.simps [of e ms s] frag_def loop_plan_less completes_def)
  next
    case True
    then have m: "8000 \<le> unat ms" and sub: "unat (ms - 8000) = unat ms - 8000"
      by (simp_all add: word_le_nat_alt unat_sub)
    obtain why s1 where mp: "myPowerDown e WDTO_8S 8000 s = (why, s1)"
      by (cases "myPowerDown e WDTO_8S 8000 s")
    note st = myPowerDown_cases [OF mp]
    show ?thesis
    proof (cases "why = 0")
      case False
      have "stopped why [PowerDown WDTO_8S (wokeUpWhy s) why] (loop_plan (has_tick e) (unat ms))"
        using False by (simp add: stopped_def loop_plan_step [OF m])
      with True mp st False show ?thesis
        by (simp add: loop8000.simps [of e ms s] frag_def)
    next
      case w0: True
      obtain why2 s2 where ct: "call_tick e s1 = (why2, s2)"
        by (cases "call_tick e s1")
      from call_tick_cases(2) [OF ct, of 0] obtain tevs where
        tt: "trace s2 = trace s1 @ tevs" and ts: "map shape tevs = cbk (has_tick e)"
        and tout: "\<forall>ev \<in> set tevs. outcome ev = why2" and tnil: "tevs = [] \<longrightarrow> why2 = 0"
        and tf: "flows 0 tevs" and tff: "final_flag 0 tevs = 0"
        by blast
      have w2: "wokeUpWhy s2 = 0" using call_tick_cases(1) [OF ct] st w0 by simp
      let ?evs = "PowerDown WDTO_8S (wokeUpWhy s) 0 # tevs"
      have tr: "trace s2 = trace s @ ?evs" using tt st w0 by simp
      have fl: "flows (wokeUpWhy s) ?evs" and ff: "wokeUpWhy s2 = final_flag (wokeUpWhy s) ?evs"
        using tf tff w2 by simp_all
      show ?thesis
      proof (cases "why2 = 0")
        case False
        with tnil have ne: "tevs \<noteq> []" by blast
        have one: "length tevs = 1"
          using ts ne by (cases tevs) (auto simp: cbk_def split: if_splits dest: arg_cong [where f = length])
        then obtain ev where tev: "tevs = [ev]" by (cases tevs) auto
        with tout have "outcome ev = why2" by simp
        with False have "stops ev" by (cases ev) auto
        with tev ts \<open>outcome ev = why2\<close>
        have "stopped why2 ?evs (loop_plan (has_tick e) (unat ms))"
          by (simp add: stopped_def loop_plan_step [OF m])
        with True mp ct w0 False tr fl ff show ?thesis
          by (simp add: loop8000.simps [of e ms s] frag_def)
      next
        case t0: True
        have nostop: "\<forall>ev \<in> set tevs. \<not> stops ev"
        proof
          fix ev assume "ev \<in> set tevs"
          with tout t0 have "outcome ev = 0" by simp
          then show "\<not> stops ev" by (cases ev) auto
        qed
        have fu: "completes ?evs (Quantum WDTO_8S # cbk (has_tick e))"
          using ts nostop by (simp add: completes_def)
        have ih: "frag s2 (loop_plan (has_tick e) (unat ms - 8000)) ((unat ms - 8000) mod 8000) (loop8000 e (ms - 8000) s2)"
          using "1.IH" [OF True refl mp [symmetric] _ refl ct [symmetric]] w0 t0 sub by simp
        have eq: "loop8000 e ms s = loop8000 e (ms - 8000) s2"
          using True mp ct w0 t0 by (simp add: loop8000.simps [of e ms s])
        have md: "(unat ms - 8000) mod 8000 = unat ms mod 8000"
          using m by (simp add: le_mod_geq)
        from frag_seq [OF tr fu fl ff ih] show ?thesis
          by (simp add: eq md loop_plan_step [OF m])
      qed
    qed
  qed
qed

lemma frag_then_nap:
  assumes "frag s p m r" and "unat q = n"
  shows "frag s (p @ step_plan wdto n m) (step_rem n m) (andThen r (nap e wdto q))"
proof (rule frag_andThen [OF assms(1)])
  fix ms1 :: u32 and s1 :: mcu
  assume "unat ms1 = m"
  with frag_nap [of s1 wdto q ms1 e] assms(2)
  show "frag s1 (step_plan wdto n m) (step_rem n m) (nap e wdto q ms1 s1)"
    by simp
qed

lemma call_tick_frag:
  assumes "call_tick e s = (r, s1)"
  shows "\<exists>evs. trace s1 = trace s @ evs \<and> flows f evs \<and> final_flag f evs = f
           \<and> wokeUpWhy s1 = wokeUpWhy s
           \<and> (if r = 0 then completes evs (cbk (has_tick e)) else stopped r evs (cbk (has_tick e)))"
proof (cases "tick e")
  case None
  with assms show ?thesis
    by (simp add: call_tick_def cbk_def has_tick_def completes_def)
next
  case (Some g)
  with assms have "trace s1 = trace s @ [Tick r]" and "wokeUpWhy s1 = wokeUpWhy s"
    by (auto simp: call_tick_def)
  moreover have "if r = 0 then completes [Tick r] (cbk (has_tick e)) else stopped r [Tick r] (cbk (has_tick e))"
    using Some by (simp add: cbk_def has_tick_def completes_def stopped_def)
  moreover have "flows f [Tick r]" and "final_flag f [Tick r] = f" by simp_all
  ultimately show ?thesis by blast
qed

lemma myInternalSleep_run:
  assumes run: "myInternalSleep e ms s = (why, s')"
  shows "\<exists>evs. trace s' = trace s @ evs \<and> flows (wokeUpWhy s) evs
           \<and> wokeUpWhy s' = final_flag (wokeUpWhy s) evs
           \<and> (if why = 0 then completes evs (plan (has_tick e) (unat ms))
               else stopped why evs (plan (has_tick e) (unat ms)))"
proof -
  let ?tk = "has_tick e"
  define r0 where "r0 = loop8000 e ms s"
  define r1 where "r1 = andThen r0 (nap e WDTO_4S 4000)"
  define r2 where "r2 = andThen r1 (nap e WDTO_2S 2000)"
  define r3 where "r3 = andThen r2 (nap e WDTO_1S 1000)"
  define r4 where "r4 = andThen r3 (nap e WDTO_500MS 500)"
  define r5 where "r5 = andThen r4 (nap e WDTO_250MS 250)"
  define r6 where "r6 = andThen r5 (nap e WDTO_120MS 120)"
  define r7 where "r7 = andThen r6 (nap e WDTO_60MS 60)"
  define r8 where "r8 = andThen r7 (nap e WDTO_30MS 30)"
  define r9 where "r9 = andThen r8 (nap e WDTO_15MS 15)"
  note rs = r0_def r1_def r2_def r3_def r4_def r5_def r6_def r7_def r8_def r9_def
  define m where "m = unat ms mod 8000"
  have f0: "frag s (loop_plan ?tk (unat ms)) m r0"
    unfolding r0_def m_def by (rule frag_loop8000)
  note f1 = frag_then_nap [OF f0, of 4000 4000 WDTO_4S e, folded r1_def, simplified]
  note f2 = frag_then_nap [OF f1, of 2000 2000 WDTO_2S e, folded r2_def, simplified]
  note f3 = frag_then_nap [OF f2, of 1000 1000 WDTO_1S e, folded r3_def, simplified]
  note f4 = frag_then_nap [OF f3, of 500 500 WDTO_500MS e, folded r4_def, simplified]
  note f5 = frag_then_nap [OF f4, of 250 250 WDTO_250MS e, folded r5_def, simplified]
  note f6 = frag_then_nap [OF f5, of 120 120 WDTO_120MS e, folded r6_def, simplified]
  note f7 = frag_then_nap [OF f6, of 60 60 WDTO_60MS e, folded r7_def, simplified]
  note f8 = frag_then_nap [OF f7, of 30 30 WDTO_30MS e, folded r8_def, simplified]
  note f9 = frag_then_nap [OF f8, of 15 15 WDTO_15MS e, folded r9_def, simplified]
  have f9': "\<exists>rem. frag s (loop_plan ?tk (unat ms) @ chain_plan m table) rem r9"
    using f9 by (auto simp: table_def)
  then obtain rem evs9 where
    t9: "trace (snd r9) = trace s @ evs9" and fl9: "flows (wokeUpWhy s) evs9"
    and w9: "wokeUpWhy (snd r9) = final_flag (wokeUpWhy s) evs9"
    and c9: "case fst r9 of Inr ms' \<Rightarrow> unat ms' = rem \<and> completes evs9 (loop_plan ?tk (unat ms) @ chain_plan m table)
               | Inl why \<Rightarrow> stopped why evs9 (loop_plan ?tk (unat ms) @ chain_plan m table)"
    by (auto simp: frag_def)
  have res: "myInternalSleep e ms s = (case r9 of (Inl why, s') \<Rightarrow> (why, s') | (Inr ms', s') \<Rightarrow> call_tick e s')"
    by (simp add: myInternalSleep_def Let_def rs)
  obtain x s9 where r9: "r9 = (x, s9)" by (cases r9)
  have pl: "plan ?tk (unat ms) = (loop_plan ?tk (unat ms) @ chain_plan m table) @ cbk ?tk"
    by (simp add: plan_def m_def)
  show ?thesis
  proof (cases x)
    case (Inl w)
    with res r9 run have eq: "why = w" "s' = s9" by simp_all
    from c9 r9 Inl have pa: "stopped w evs9 (loop_plan ?tk (unat ms) @ chain_plan m table)" by simp
    then have "w \<noteq> 0" by (cases "last evs9") (auto simp: stopped_def)
    with stopped_extend [OF pa, of "cbk ?tk"] t9 fl9 w9 r9 eq pl show ?thesis
      by auto
  next
    case (Inr ms')
    with res r9 run have ct: "call_tick e s9 = (why, s')" by simp
    from c9 r9 Inr have fu: "completes evs9 (loop_plan ?tk (unat ms) @ chain_plan m table)" by simp
    from call_tick_frag [OF ct, of "wokeUpWhy s9"] obtain tevs where
      tt: "trace s' = trace s9 @ tevs" and tf: "flows (wokeUpWhy s9) tevs"
      and tff: "final_flag (wokeUpWhy s9) tevs = wokeUpWhy s9" and tw: "wokeUpWhy s' = wokeUpWhy s9"
      and tc: "if why = 0 then completes tevs (cbk ?tk) else stopped why tevs (cbk ?tk)"
      by blast
    have "trace s' = trace s @ (evs9 @ tevs)" using tt t9 r9 by simp
    moreover have "flows (wokeUpWhy s) (evs9 @ tevs)"
      using fl9 tf w9 r9 by (simp add: flows_append)
    moreover have "wokeUpWhy s' = final_flag (wokeUpWhy s) (evs9 @ tevs)"
      using tw tff w9 r9 by (simp add: final_flag_append)
    moreover have "if why = 0 then completes (evs9 @ tevs) (plan ?tk (unat ms))
        else stopped why (evs9 @ tevs) (plan ?tk (unat ms))"
      using tc fu unfolding pl by (auto intro: completes_append completes_stopped simp del: append_assoc)
    ultimately show ?thesis by blast
  qed
qed

lemmas wdto_defs = WDTO_15MS_def WDTO_30MS_def WDTO_60MS_def WDTO_120MS_def WDTO_250MS_def
  WDTO_500MS_def WDTO_1S_def WDTO_2S_def WDTO_4S_def WDTO_8S_def WDTO_SLEEP_FOREVER_def

lemma selectors_append: "selectors (p @ q) = selectors p @ selectors q"
  by (induction p rule: selectors.induct) auto

lemma uninterrupted_iff: "uninterrupted evs \<longleftrightarrow> (\<forall>ev \<in> set evs. \<not> stops ev)"
  by (induction evs) auto

lemma stopped_interrupted: "stopped why evs pl \<Longrightarrow> \<not> uninterrupted evs"
  by (auto simp: stopped_def uninterrupted_iff intro: bexI [of _ "last evs"])

lemma selectors_loop_plan: "selectors (loop_plan tk m) = replicate (m div 8000) WDTO_8S"
proof -
  have "selectors (concat (replicate k (Quantum WDTO_8S # cbk tk))) = replicate k WDTO_8S" for k
    by (induction k) (auto simp: selectors_append cbk_def)
  then show ?thesis by (simp add: loop_plan_def)
qed

lemma callbacks_loop_plan: "count_list (loop_plan tk m) Callback = (if tk then m div 8000 else 0)"
proof -
  have "count_list (concat (replicate k (Quantum WDTO_8S # cbk tk))) Callback = (if tk then k else 0)" for k
    by (induction k) (auto simp: cbk_def)
  then show ?thesis by (simp add: loop_plan_def)
qed

lemma callbacks_chain_plan: "count_list (chain_plan m tb) Callback = 0"
  by (induction m tb rule: chain_plan.induct) (auto simp: step_plan_def)

lemma callbacks_plan: "count_list (plan tk m) Callback = (if tk then m div 8000 + 1 else 0)"
  by (simp add: plan_def callbacks_loop_plan callbacks_chain_plan cbk_def)

lemma selectors_cbk: "selectors (cbk tk) = []"
  by (simp add: cbk_def)

lemma sum_chain_plan:
  "\<forall>(wdto, q) \<in> set tb. wdto_ms wdto = q \<Longrightarrow>
   sum_list (map wdto_ms (selectors (chain_plan m tb))) = chain_sum m (map snd tb)"
  by (induction m tb rule: chain_plan.induct) (auto simp: step_plan_def step_rem_def selectors_append)

lemma table_wdto_ms: "\<forall>(wdto, q) \<in> set table. wdto_ms wdto = q"
  by (simp add: table_def wdto_ms_def wdto_defs)

lemma map_snd_table: "map snd table = durations"
  by (simp add: table_def durations_def)

lemma slept_plan:
  "sum_list (map wdto_ms (selectors (plan tk m))) = 8000 * (m div 8000) + chain_sum (m mod 8000) durations"
  by (simp add: plan_def selectors_append selectors_loop_plan selectors_cbk sum_chain_plan [OF table_wdto_ms]
      map_snd_table wdto_ms_def sum_list_replicate)

lemma chain_sum_le: "chain_sum m t \<le> m"
  by (induction m t rule: chain_sum.induct) auto

lemma chain_sum_left: "m < b \<Longrightarrow> m < chain_sum m t + left_bound b t"
proof (induction t arbitrary: m b)
  case Nil
  then show ?case by simp
next
  case (Cons q t)
  show ?case
  proof (cases "q \<le> m")
    case True
    with Cons.prems have "m - q < max q (b - q)" by simp
    from Cons.IH [OF this] True show ?thesis by simp
  next
    case False
    then have "m < max q (b - q)" by simp
    from Cons.IH [OF this] False show ?thesis by simp
  qed
qed

lemma chain_sum_durations: "m < 8000 \<Longrightarrow> m < chain_sum m durations + 25"
  using chain_sum_left [of m 8000 durations] by (simp add: durations_def)

lemma subseq_sum_list_le: "subseq qs t \<Longrightarrow> sum_list qs \<le> sum_list (t :: nat list)"
  by (induction rule: list_emb.induct) auto

lemma chain_sum_exact: "superinc t \<Longrightarrow> subseq qs t \<Longrightarrow> chain_sum (sum_list qs) t = sum_list qs"
proof (induction t arbitrary: qs)
  case Nil
  then have "qs = []" by (auto dest: list_emb_Nil2)
  then show ?case by simp
next
  case (Cons q t)
  show ?case
  proof (cases qs)
    case Nil
    then show ?thesis using chain_sum_le [of 0 "q # t"] by simp
  next
    case (Cons x xs)
    show ?thesis
    proof (cases "x = q")
      case True
      with Cons Cons.prems have "subseq xs t" by simp
      with Cons.IH [of xs] Cons.prems(1) Cons True show ?thesis by simp
    next
      case False
      with Cons Cons.prems have sub: "subseq qs t" by simp
      from subseq_sum_list_le [OF sub] Cons.prems(1) have "\<not> q \<le> sum_list qs" by simp
      with Cons.IH [OF _ sub] Cons.prems(1) show ?thesis by simp
    qed
  qed
qed

lemma superinc_durations: "superinc durations"
  by (simp add: durations_def)

lemma plan_9015: "selectors (plan tk 9015) = [WDTO_8S, WDTO_1S, WDTO_15MS]"
  by (simp add: plan_def loop_plan_def table_def step_plan_def step_rem_def selectors_append selectors_cbk)

lemma new_events_append: "trace s' = trace s @ evs \<Longrightarrow> new_events s s' = evs"
  by (simp add: new_events_def)

lemma myInternalSleep_events:
  assumes "myInternalSleep e ms s = (why, s')"
  shows "if why = 0 then completes (new_events s s') (plan (has_tick e) (unat ms))
         else stopped why (new_events s s') (plan (has_tick e) (unat ms))"
  using myInternalSleep_run [OF assms] by (auto simp: new_events_append)

lemma run_events_cases:
  "if fst (myInternalSleep e ms s) = 0 then completes (run_events e ms s) (plan (has_tick e) (unat ms))
   else stopped (fst (myInternalSleep e ms s)) (run_events e ms s) (plan (has_tick e) (unat ms))"
  using myInternalSleep_events [of e ms s "fst (myInternalSleep e ms s)" "snd (myInternalSleep e ms s)"]
  by (simp add: run_events_def)

lemma run_events_uninterrupted:
  assumes "uninterrupted (run_events e ms s)"
  shows "map shape (run_events e ms s) = plan (has_tick e) (unat ms)"
  using run_events_cases [of e ms s] assms
  by (auto simp: completes_def dest: stopped_interrupted split: if_splits)

lemma run_events_prefix: "prefix (map shape (run_events e ms s)) (plan (has_tick e) (unat ms))"
  using run_events_cases [of e ms s] by (auto simp: completes_def stopped_def split: if_splits)

lemma count_list_prefix: "prefix p q \<Longrightarrow> count_list p x \<le> count_list q x"
  by (auto simp: prefix_def)

lemma flows_entry: "flows f evs \<Longrightarrow> (case entry_flags evs of [] \<Rightarrow> True | g # gs \<Rightarrow> g = f)"
  by (induction f evs rule: flows.induct) auto

lemma mySleep_timed:
  assumes "0 < ms"
  shows "sleep_events e ms s = run_events e ms (pre_doPowerDown (s\<lparr>wokeUpWhy := 0\<rparr>))"
  using assms
  by (simp add: sleep_events_def run_events_def mySleep_def Let_def new_events_def
      pre_doPowerDown_def post_doPowerDown_def split: prod.splits)

lemma mySleep_forever:
  "sleep_events e 0 s =
     [PowerDown WDTO_SLEEP_FOREVER 0 (case isr e (trace s) of None \<Rightarrow> 0 | Some v \<Rightarrow> v)]"
  by (simp add: sleep_events_def mySleep_def Let_def new_events_def
      pre_doPowerDown_def post_doPowerDown_def doPowerDown_def split: option.splits)

lemma run_events_flows: "flows (wokeUpWhy s) (run_events e ms s)"
  using myInternalSleep_run [of e ms s "fst (myInternalSleep e ms s)" "snd (myInternalSleep e ms s)"]
  by (auto simp: run_events_def new_events_append)

lemma snooze_sleep_mySleep:
  "fst (snooze_sleep e t smartSleep s) = fst (mySleep e t (announce e smartSleep s))
   \<and> trace (snd (snooze_sleep e t smartSleep s)) = trace (snd (mySleep e t (announce e smartSleep s)))"
  by (simp add: snooze_sleep_def announce_def Let_def split: prod.splits)

lemma wait_ready_stops:
  assumes "\<forall>n<N. \<not> isTransportReady e (calls s @ replicate n Process)
              \<and> waited_from e t0 d0 (calls s) n < min ms (MY_SLEEP_TRANSPORT_RECONNECT_TIMEOUT_MS e)"
    and "isTransportReady e (calls s @ replicate N Process)
         \<or> ms \<le> waited_from e t0 d0 (calls s) N
         \<or> MY_SLEEP_TRANSPORT_RECONNECT_TIMEOUT_MS e \<le> waited_from e t0 d0 (calls s) N"
  shows "wait_ready e t0 ms d0 s =
           Some (waited_from e t0 d0 (calls s) N, s\<lparr>calls := calls s @ replicate N Process\<rparr>)"
  using assms
proof (induction N arbitrary: s d0)
  case 0
  then consider "isTransportReady e (calls s)" | "\<not> d0 < ms"
    | "\<not> d0 < MY_SLEEP_TRANSPORT_RECONNECT_TIMEOUT_MS e"
    by (auto simp: waited_from_def)
  then show ?case
    by cases (simp_all add: wait_ready.simps [of e t0 ms d0 s] waited_from_def)
next
  case (Suc N)
  let ?d1 = "hwMillis e (calls (process s)) - t0"
  have cs: "calls (process s) @ replicate n Process = calls s @ replicate (Suc n) Process" for n
    by (simp add: process_def replicate_app_Cons_same)
  have shift: "waited_from e t0 ?d1 (calls (process s)) n = waited_from e t0 d0 (calls s) (Suc n)" for n
  proof (cases n)
    case 0
    then show ?thesis by (simp add: waited_from_def process_def)
  next
    case (Suc k)
    show ?thesis unfolding Suc waited_from_def using cs [of "Suc k"] by simp
  qed
  from Suc.prems(1) have go: "\<not> isTransportReady e (calls s)" "d0 < ms"
      "d0 < MY_SLEEP_TRANSPORT_RECONNECT_TIMEOUT_MS e"
    by (auto dest: spec [of _ 0] simp: waited_from_def)
  have p1: "\<forall>n<N. \<not> isTransportReady e (calls (process s) @ replicate n Process)
              \<and> waited_from e t0 ?d1 (calls (process s)) n < min ms (MY_SLEEP_TRANSPORT_RECONNECT_TIMEOUT_MS e)"
    using Suc.prems(1) by (auto simp: cs shift)
  have p2: "isTransportReady e (calls (process s) @ replicate N Process)
         \<or> ms \<le> waited_from e t0 ?d1 (calls (process s)) N
         \<or> MY_SLEEP_TRANSPORT_RECONNECT_TIMEOUT_MS e \<le> waited_from e t0 ?d1 (calls (process s)) N"
    using Suc.prems(2) by (simp add: shift cs)
  have "wait_ready e t0 ms d0 s = wait_ready e t0 ms ?d1 (process s)"
    using go by (simp add: wait_ready.simps [of e t0 ms d0 s])
  also have "\<dots> = Some (waited_from e t0 ?d1 (calls (process s)) N,
                      (process s)\<lparr>calls := calls (process s) @ replicate N Process\<rparr>)"
    by (rule Suc.IH [OF p1 p2])
  finally show ?case by (simp add: shift cs) (simp add: process_def)
qed

section \<open>The claims\<close>

subsection \<open>The quantum sleeper\<close>

text \<open>
  Claim C6. After one call of \<open>myPowerDown\<close> the clock \<open>timer0_millis\<close> is its old
  value plus the nominal duration \<open>ms\<close> when the wake flag is zero at the end of the
  hardware sleep, and its old value when the flag is non-zero; for a duration other
  than zero the clock has advanced by \<open>ms\<close> if and only if the flag is zero. Apart from
  the clock the state is the one the hardware sleep left.
\<close>

theorem myPowerDown_clock:
  "timer0_millis (snd (myPowerDown e wdto ms s)) =
     (if wokeUpWhy (doPowerDown e wdto s) = 0 then timer0_millis s + ms else timer0_millis s)
   \<and> (ms \<noteq> 0 \<longrightarrow>
        (timer0_millis (snd (myPowerDown e wdto ms s)) = timer0_millis s + ms
           \<longleftrightarrow> wokeUpWhy (doPowerDown e wdto s) = 0))
   \<and> (snd (myPowerDown e wdto ms s))\<lparr>timer0_millis := t\<rparr> = (doPowerDown e wdto s)\<lparr>timer0_millis := t\<rparr>"
  by (simp add: myPowerDown_def doPowerDown_def Let_def)

text \<open>An 8 s quantum from the initial state, with no interrupt.\<close>

theorem myPowerDown_clock_witness:
  "(8000 :: u32) \<noteq> 0
   \<and> timer0_millis (snd (myPowerDown quiet_env WDTO_8S 8000 st0)) = timer0_millis st0 + 8000
   \<and> wokeUpWhy (doPowerDown quiet_env WDTO_8S st0) = 0"
proof -
  have h: "(8000 :: u32) \<noteq> 0" by simp
  have w: "wokeUpWhy (doPowerDown quiet_env WDTO_8S st0) = 0"
    by (simp add: doPowerDown_def quiet_env_def st0_def)
  from myPowerDown_clock [of quiet_env WDTO_8S 8000 st0] h w show ?thesis by simp
qed

text \<open>
  Claim C9. \<open>myPowerDown\<close> returns the value the wake flag holds after the hardware
  sleep, and that value is the one the interrupt handlers wrote during the sleep, or
  the value the flag had before the call when no handler wrote it: the function itself
  never assigns the flag.
\<close>

theorem myPowerDown_returns_flag:
  "fst (myPowerDown e wdto ms s) = wokeUpWhy (snd (myPowerDown e wdto ms s))
   \<and> wokeUpWhy (snd (myPowerDown e wdto ms s)) =
       (case isr e (trace s) of None \<Rightarrow> wokeUpWhy s | Some v \<Rightarrow> v)"
  by (simp add: myPowerDown_def doPowerDown_def Let_def)

text \<open>A flag of 7 set before the call is still there after it, and is returned.\<close>

theorem myPowerDown_returns_flag_witness:
  "isr quiet_env (trace st_stale) = None \<and> wokeUpWhy st_stale = 7
   \<and> fst (myPowerDown quiet_env WDTO_8S 8000 st_stale) = 7
   \<and> wokeUpWhy (snd (myPowerDown quiet_env WDTO_8S 8000 st_stale)) = 7"
proof -
  have a: "isr quiet_env (trace st_stale) = None \<and> wokeUpWhy st_stale = 7"
    by (simp add: quiet_env_def st_stale_def st0_def)
  from myPowerDown_returns_flag [of quiet_env WDTO_8S 8000 st_stale] a show ?thesis by simp
qed

subsection \<open>The scheduler\<close>

text \<open>
  Claim C1, as amended. In a run of \<open>myInternalSleep\<close> in which no hardware sleep ends
  with the wake flag set and no callback returns non-zero, the nominal durations of the
  quanta slept add up to at most \<open>ms\<close> and to more than \<open>ms - 25\<close>, and to exactly \<open>ms\<close>
  whenever \<open>ms\<close> is a multiple of 8000 plus a sum of distinct table entries below 8000.
\<close>

theorem myInternalSleep_slept_total:
  assumes "uninterrupted (run_events e ms s)"
  shows "slept (run_events e ms s) \<le> unat ms
     \<and> unat ms < slept (run_events e ms s) + 25
     \<and> (unat ms = 8000 * k + sum_list qs \<and> subseq qs durations
          \<longrightarrow> slept (run_events e ms s) = unat ms)"
proof -
  let ?m = "unat ms"
  have sl: "slept (run_events e ms s) = 8000 * (?m div 8000) + chain_sum (?m mod 8000) durations"
    using run_events_uninterrupted [OF assms] by (simp add: slept_def quanta_def slept_plan)
  have le: "chain_sum (?m mod 8000) durations \<le> ?m mod 8000" by (rule chain_sum_le)
  have lt: "?m mod 8000 < chain_sum (?m mod 8000) durations + 25"
    by (rule chain_sum_durations) simp
  have dm: "?m = 8000 * (?m div 8000) + ?m mod 8000" by simp
  have 1: "slept (run_events e ms s) \<le> ?m" using sl le dm by linarith
  have 2: "?m < slept (run_events e ms s) + 25" using sl lt dm by linarith
  have 3: "slept (run_events e ms s) = ?m" if eq: "?m = 8000 * k + sum_list qs" and sub: "subseq qs durations"
  proof -
    have "sum_list qs \<le> sum_list durations" using sub by (rule subseq_sum_list_le)
    then have small: "sum_list qs < 8000" by (simp add: durations_def)
    with eq have "?m mod 8000 = sum_list qs" and "?m div 8000 = k" by simp_all
    with sl chain_sum_exact [OF superinc_durations sub] eq show ?thesis by simp
  qed
  from 1 2 3 show ?thesis by blast
qed

text \<open>The request \<open>9015 = 8000 + 1000 + 15\<close> in the quiet environment.\<close>

theorem myInternalSleep_slept_total_witness:
  "uninterrupted (run_events quiet_env 9015 st0)
   \<and> unat (9015 :: u32) = 8000 * 1 + sum_list [1000, 15] \<and> subseq [1000, 15] durations
   \<and> slept (run_events quiet_env 9015 st0) = unat (9015 :: u32)"
proof -
  have h: "uninterrupted (run_events quiet_env 9015 st0)" by code_simp
  have g: "unat (9015 :: u32) = 8000 * 1 + sum_list [1000, 15] \<and> subseq [1000, 15] durations"
    by (simp add: durations_def)
  from myInternalSleep_slept_total [OF h, of 1 "[1000, 15]"] h g show ?thesis by blast
qed

text \<open>
  The sum is not \<open>ms\<close> rounded down to a multiple of 15: a request of 250 ms sleeps
  250 ms, not 240. Nor is every sum of table entries slept in full: of
  \<open>240 = 120 + 120\<close> only \<open>120 + 60 + 30 + 15 = 225\<close> are slept.
\<close>

theorem myInternalSleep_slept_not_floor15:
  "uninterrupted (run_events quiet_env 250 st0)
   \<and> slept (run_events quiet_env 250 st0) = 250
   \<and> 15 * (250 div 15) = (240 :: nat)
   \<and> uninterrupted (run_events quiet_env 240 st0)
   \<and> slept (run_events quiet_env 240 st0) = 225
   \<and> (240 :: nat) = 120 + 120"
  by code_simp

text \<open>
  Claim C3, as amended. The quanta and callbacks of a run of \<open>myInternalSleep\<close> are an
  initial segment of the schedule \<open>plan\<close>: the callback after each 8 s quantum, not
  after the shorter ones, and once more at the end. So the callback is invoked at most
  \<open>ms div 8000 + 1\<close> times when the application defines it (never otherwise), and
  exactly that often in a run that nothing ends early, which follows the whole schedule.
\<close>

theorem myInternalSleep_tick_count:
  "prefix (map shape (run_events e ms s)) (plan (has_tick e) (unat ms))
   \<and> ticks (run_events e ms s) \<le> (if has_tick e then unat ms div 8000 + 1 else 0)
   \<and> (uninterrupted (run_events e ms s) \<longrightarrow>
        map shape (run_events e ms s) = plan (has_tick e) (unat ms)
        \<and> ticks (run_events e ms s) = (if has_tick e then unat ms div 8000 + 1 else 0))"
  using run_events_prefix [of e ms s] count_list_prefix [OF run_events_prefix [of e ms s], of Callback]
    run_events_uninterrupted [of e ms s]
  by (simp add: ticks_def callbacks_plan)

text \<open>A request of 20 s in the quiet environment: three callbacks.\<close>

theorem myInternalSleep_tick_count_witness:
  "uninterrupted (run_events quiet_env 20000 st0) \<and> ticks (run_events quiet_env 20000 st0) = 3"
proof -
  have h: "uninterrupted (run_events quiet_env 20000 st0)" by code_simp
  have t: "has_tick quiet_env" by (simp add: has_tick_def quiet_env_def)
  have u: "unat (20000 :: u32) div 8000 + 1 = 3" by simp
  from myInternalSleep_tick_count [of quiet_env 20000 st0] h t u show ?thesis by simp
qed

text \<open>
  A request of 8000 ms runs to completion with one quantum and two callbacks, more
  than \<open>ceil (8000 / 8000) = 1\<close>; a request of 5 ms invokes the callback once and sleeps
  no quantum at all.
\<close>

theorem myInternalSleep_tick_count_exceeds:
  "fst (myInternalSleep quiet_env 8000 st0) = 0
   \<and> ticks (run_events quiet_env 8000 st0) = 2
   \<and> length (quanta (run_events quiet_env 8000 st0)) = 1
   \<and> (8000 + 7999) div 8000 = (1 :: nat)
   \<and> fst (myInternalSleep quiet_env 5 st0) = 0
   \<and> run_events quiet_env 5 st0 = [Tick 0]"
  by code_simp

text \<open>
  Claim C4. In a run of \<open>myInternalSleep\<close>, an event with a non-zero outcome (a
  hardware sleep that ends with the wake flag set, or a callback that returns non-zero)
  is the last event of the run, and its outcome is the value the function returns: no
  further quantum is attempted.
\<close>

theorem myInternalSleep_stops_at_first_wake:
  assumes "run_events e ms s = pre @ ev # post" and "stops ev"
  shows "post = [] \<and> fst (myInternalSleep e ms s) = outcome ev"
proof -
  let ?why = "fst (myInternalSleep e ms s)"
  let ?pl = "plan (has_tick e) (unat ms)"
  have "\<not> completes (run_events e ms s) ?pl"
    using assms by (auto simp: completes_def)
  with run_events_cases [of e ms s] have pa: "stopped ?why (run_events e ms s) ?pl"
    by (auto split: if_splits)
  have nil: "post = []"
  proof (rule ccontr)
    assume "post \<noteq> []"
    then have "ev \<in> set (butlast (pre @ ev # post))"
      by (simp add: butlast_append)
    with pa assms show False by (auto simp: stopped_def)
  qed
  with pa assms(1) have "outcome ev = ?why" by (simp add: stopped_def)
  with nil show ?thesis by simp
qed

text \<open>
  A request of 20 s ended by an interrupt during the second quantum, and one ended by
  the second callback.
\<close>

theorem myInternalSleep_stops_at_first_wake_witness:
  "run_events irq_env 20000 st0 = [PowerDown WDTO_8S 0 0, Tick 0] @ PowerDown WDTO_8S 0 5 # []
   \<and> stops (PowerDown WDTO_8S 0 5)
   \<and> fst (myInternalSleep irq_env 20000 st0) = 5
   \<and> run_events tick_env 20000 st0 = [PowerDown WDTO_8S 0 0, Tick 0, PowerDown WDTO_8S 0 0] @ Tick 3 # []
   \<and> stops (Tick 3)
   \<and> fst (myInternalSleep tick_env 20000 st0) = 3"
proof -
  have a: "run_events irq_env 20000 st0 = [PowerDown WDTO_8S 0 0, Tick 0] @ PowerDown WDTO_8S 0 5 # []"
    by code_simp
  have b: "run_events tick_env 20000 st0 = [PowerDown WDTO_8S 0 0, Tick 0, PowerDown WDTO_8S 0 0] @ Tick 3 # []"
    by code_simp
  have sa: "stops (PowerDown WDTO_8S 0 5)" and sb: "stops (Tick 3)" by simp_all
  from myInternalSleep_stops_at_first_wake [OF a sa]
    myInternalSleep_stops_at_first_wake [OF b sb] a b sa sb
  show ?thesis by simp
qed

text \<open>
  Claim C7. A request of 9015 ms that nothing ends early sleeps one 8 s quantum, then
  one 1 s quantum, then one 15 ms quantum, and no other.
\<close>

theorem myInternalSleep_greedy_9015:
  assumes "uninterrupted (run_events e 9015 s)"
  shows "quanta (run_events e 9015 s) = [WDTO_8S, WDTO_1S, WDTO_15MS]"
  using run_events_uninterrupted [OF assms] by (simp add: quanta_def plan_9015)

text \<open>The quiet environment does not end the request early.\<close>

theorem myInternalSleep_greedy_9015_witness:
  "uninterrupted (run_events quiet_env 9015 st0)
   \<and> quanta (run_events quiet_env 9015 st0) = [WDTO_8S, WDTO_1S, WDTO_15MS]"
proof -
  have h: "uninterrupted (run_events quiet_env 9015 st0)" by code_simp
  from myInternalSleep_greedy_9015 [OF h] h show ?thesis by simp
qed

subsection \<open>The entry point \<open>mySleep\<close>\<close>

text \<open>
  Claim C5. For every request, whatever the wake flag held before it and however it
  ends, \<open>mySleep\<close> leaves the wake flag at zero, and the first hardware sleep of the
  request, if there is one, is entered with the flag at zero.
\<close>

theorem mySleep_clears_flag:
  "wokeUpWhy (snd (mySleep e ms s)) = 0
   \<and> (case entry_flags (sleep_events e ms s) of [] \<Rightarrow> True | f # fs \<Rightarrow> f = 0)"
proof
  show "wokeUpWhy (snd (mySleep e ms s)) = 0"
    by (simp add: mySleep_def Let_def post_doPowerDown_def split: prod.splits)
  show "case entry_flags (sleep_events e ms s) of [] \<Rightarrow> True | f # fs \<Rightarrow> f = 0"
  proof (cases "0 < ms")
    case True
    have "wokeUpWhy (pre_doPowerDown (s\<lparr>wokeUpWhy := 0\<rparr>)) = 0"
      by (simp add: pre_doPowerDown_def)
    with flows_entry [OF run_events_flows [of "pre_doPowerDown (s\<lparr>wokeUpWhy := 0\<rparr>)" e ms]]
    show ?thesis by (simp add: mySleep_timed [OF True] split: list.splits)
  next
    case False
    then have "ms = 0" by (simp add: word_greater_zero_iff)
    then show ?thesis by (simp add: mySleep_forever)
  qed
qed

text \<open>A request started with a stale flag of 7 and ended by an interrupt.\<close>

theorem mySleep_clears_flag_witness:
  "wokeUpWhy st_stale = 7
   \<and> entry_flags (sleep_events irq_env 20000 st_stale) = [0, 0]
   \<and> wokeUpWhy (snd (mySleep irq_env 20000 st_stale)) = 0"
proof -
  have a: "wokeUpWhy st_stale = 7 \<and> entry_flags (sleep_events irq_env 20000 st_stale) = [0, 0]"
    by code_simp
  from mySleep_clears_flag [of irq_env 20000 st_stale] a show ?thesis by simp
qed

text \<open>
  Claim C8, as amended. \<open>mySleep\<close> with \<open>ms = 0\<close> performs exactly one hardware sleep,
  with the watchdog disabled, invokes the callback zero times, and returns the value
  the wake flag holds on waking when that value is non-zero, and
  \<open>MY_WAKE_UP_BY_TIMER\<close> when it is zero.
\<close>

theorem mySleep_forever_result:
  "sleep_events e 0 s =
     [PowerDown WDTO_SLEEP_FOREVER 0 (case isr e (trace s) of None \<Rightarrow> 0 | Some v \<Rightarrow> v)]
   \<and> ticks (sleep_events e 0 s) = 0
   \<and> fst (mySleep e 0 s) =
       (if (case isr e (trace s) of None \<Rightarrow> 0 | Some v \<Rightarrow> v) \<noteq> 0
        then (case isr e (trace s) of None \<Rightarrow> 0 | Some v \<Rightarrow> v)
        else MY_WAKE_UP_BY_TIMER e)"
proof -
  have "fst (mySleep e 0 s) =
       (if (case isr e (trace s) of None \<Rightarrow> 0 | Some v \<Rightarrow> v) \<noteq> 0
        then (case isr e (trace s) of None \<Rightarrow> 0 | Some v \<Rightarrow> v)
        else MY_WAKE_UP_BY_TIMER e)"
    by (simp add: mySleep_def Let_def pre_doPowerDown_def doPowerDown_def split: option.splits)
  then show ?thesis by (simp add: mySleep_forever ticks_def)
qed

text \<open>An indefinite sleep ended by a handler that writes 5.\<close>

theorem mySleep_forever_result_witness:
  "isr wake_env (trace st0) = Some 5
   \<and> sleep_events wake_env 0 st0 = [PowerDown WDTO_SLEEP_FOREVER 0 5]
   \<and> fst (mySleep wake_env 0 st0) = 5"
proof -
  have a: "isr wake_env (trace st0) = Some 5"
    by (simp add: wake_env_def)
  from mySleep_forever_result [of wake_env st0] a show ?thesis by simp
qed

text \<open>
  When the processor is woken by an interrupt whose handler leaves the flag at zero,
  the value returned is \<open>MY_WAKE_UP_BY_TIMER\<close> (\<open>-1\<close> in MySensors), not the flag.
\<close>

theorem mySleep_forever_returns_timer_code:
  "sleep_events quiet_env 0 st0 = [PowerDown WDTO_SLEEP_FOREVER 0 0]
   \<and> fst (mySleep quiet_env 0 st0) = - 1 \<and> (- 1 :: i8) \<noteq> 0"
  by code_simp

subsection \<open>\<open>snooze\<close>\<close>

text \<open>
  Claim C10. When \<open>snooze\<close> is called with \<open>ms = 0\<close> while the transport is not ready,
  the waiting loop returns at once, without a single pass, and \<open>snooze\<close> returns
  \<open>MY_SLEEP_NOT_POSSIBLE\<close> in an unchanged state: no hardware sleep is entered.
\<close>

theorem snooze_zero_not_ready:
  assumes "\<not> isTransportReady e (calls s)"
  shows "wait_ready e t 0 0 s = Some (0, s)
     \<and> snooze e 0 smartSleep s = Some (MY_SLEEP_NOT_POSSIBLE e, s)"
proof -
  have w: "wait_ready e t 0 0 s = Some (0, s)" for t
    by (simp add: wait_ready.simps [of e t 0 0 s])
  with assms show ?thesis by (simp add: snooze_def)
qed

text \<open>The quiet environment, whose transport is never ready.\<close>

theorem snooze_zero_not_ready_witness:
  "\<not> isTransportReady quiet_env (calls st0)
   \<and> snooze quiet_env 0 False st0 = Some (MY_SLEEP_NOT_POSSIBLE quiet_env, st0)"
proof -
  have h: "\<not> isTransportReady quiet_env (calls st0)" by (simp add: quiet_env_def)
  from snooze_zero_not_ready [OF h] h show ?thesis by simp
qed

text \<open>
  Claim C2, as amended. Let \<open>snooze\<close> be called with the transport not ready, and let
  its waiting loop make \<open>N\<close> passes, the transport staying not ready and the time
  waited staying below both \<open>ms\<close> and the reconnect timeout before each of them. If the
  time waited is then at least \<open>ms\<close>, \<open>snooze\<close> returns \<open>MY_SLEEP_NOT_POSSIBLE\<close> and the
  state differs only in the \<open>N\<close> calls of \<open>_process\<close>: \<open>mySleep\<close> is never invoked; so
  it is whenever \<open>ms\<close> is at most the timeout and the timeout has elapsed. If
  instead the loop ends with the time waited still below \<open>ms\<close>, because the transport
  has become ready or because the timeout has elapsed, \<open>snooze\<close> does not give up: it
  calls \<open>mySleep\<close> with the remainder \<open>ms\<close> minus the time waited, which is not zero,
  and returns its result.
\<close>

theorem snooze_after_waiting:
  assumes "\<not> isTransportReady e (calls s)"
    and "\<forall>n<N. \<not> isTransportReady e (calls s @ replicate n Process)
              \<and> waited e s n < min ms (MY_SLEEP_TRANSPORT_RECONNECT_TIMEOUT_MS e)"
  shows "(ms \<le> waited e s N \<longrightarrow>
            snooze e ms smartSleep s =
              Some (MY_SLEEP_NOT_POSSIBLE e, s\<lparr>calls := calls s @ replicate N Process\<rparr>))
     \<and> (ms \<le> MY_SLEEP_TRANSPORT_RECONNECT_TIMEOUT_MS e
          \<and> MY_SLEEP_TRANSPORT_RECONNECT_TIMEOUT_MS e \<le> waited e s N \<longrightarrow>
            snooze e ms smartSleep s =
              Some (MY_SLEEP_NOT_POSSIBLE e, s\<lparr>calls := calls s @ replicate N Process\<rparr>))
     \<and> (waited e s N < ms
          \<and> (isTransportReady e (calls s @ replicate N Process)
               \<or> MY_SLEEP_TRANSPORT_RECONNECT_TIMEOUT_MS e \<le> waited e s N) \<longrightarrow>
            0 < ms - waited e s N
            \<and> snooze e ms smartSleep s =
                Some (snooze_sleep e (ms - waited e s N) smartSleep
                        (s\<lparr>calls := calls s @ replicate N Process\<rparr>))
            \<and> map_option fst (snooze e ms smartSleep s) =
                Some (fst (mySleep e (ms - waited e s N)
                        (announce e smartSleep (s\<lparr>calls := calls s @ replicate N Process\<rparr>)))))"
proof -
  have abort: "snooze e ms smartSleep s =
          Some (MY_SLEEP_NOT_POSSIBLE e, s\<lparr>calls := calls s @ replicate N Process\<rparr>)"
    if late: "ms \<le> waited e s N"
  proof -
    from late have no: "\<not> waited e s N < ms" by simp
    from late have stop: "isTransportReady e (calls s @ replicate N Process)
           \<or> ms \<le> waited e s N \<or> MY_SLEEP_TRANSPORT_RECONNECT_TIMEOUT_MS e \<le> waited e s N"
      by blast
    from wait_ready_stops [OF assms(2) [unfolded waited_def] stop [unfolded waited_def]] no assms(1)
    show ?thesis by (simp add: snooze_def waited_def)
  qed
  have timeout: "snooze e ms smartSleep s =
          Some (MY_SLEEP_NOT_POSSIBLE e, s\<lparr>calls := calls s @ replicate N Process\<rparr>)"
    if "ms \<le> MY_SLEEP_TRANSPORT_RECONNECT_TIMEOUT_MS e
          \<and> MY_SLEEP_TRANSPORT_RECONNECT_TIMEOUT_MS e \<le> waited e s N"
  proof (rule abort)
    from that show "ms \<le> waited e s N" by (blast intro: order_trans)
  qed
  have remainder: "0 < ms - waited e s N
       \<and> snooze e ms smartSleep s =
           Some (snooze_sleep e (ms - waited e s N) smartSleep
                   (s\<lparr>calls := calls s @ replicate N Process\<rparr>))
       \<and> map_option fst (snooze e ms smartSleep s) =
           Some (fst (mySleep e (ms - waited e s N)
                   (announce e smartSleep (s\<lparr>calls := calls s @ replicate N Process\<rparr>))))"
    if h: "waited e s N < ms
       \<and> (isTransportReady e (calls s @ replicate N Process)
            \<or> MY_SLEEP_TRANSPORT_RECONNECT_TIMEOUT_MS e \<le> waited e s N)"
  proof -
    from h have pos: "0 < ms - waited e s N"
      by (auto simp: word_greater_zero_iff)
    from h have stop: "isTransportReady e (calls s @ replicate N Process)
           \<or> ms \<le> waited e s N \<or> MY_SLEEP_TRANSPORT_RECONNECT_TIMEOUT_MS e \<le> waited e s N"
      by blast
    from wait_ready_stops [OF assms(2) [unfolded waited_def] stop [unfolded waited_def]] h assms(1)
    have sn: "snooze e ms smartSleep s =
            Some (snooze_sleep e (ms - waited e s N) smartSleep
                    (s\<lparr>calls := calls s @ replicate N Process\<rparr>))"
      by (simp add: snooze_def waited_def)
    have "map_option fst (snooze e ms smartSleep s) =
            Some (fst (mySleep e (ms - waited e s N)
                    (announce e smartSleep (s\<lparr>calls := calls s @ replicate N Process\<rparr>))))"
      by (simp add: sn snooze_sleep_mySleep)
    with pos sn show ?thesis by blast
  qed
  from abort timeout remainder show ?thesis by blast
qed

text \<open>
  A request of 5000 ms, used up by two passes of 2500 ms each, and one of 10015 ms,
  of which the timeout of 10000 ms leaves 15 to sleep.
\<close>

theorem snooze_after_waiting_witness:
  "\<not> isTransportReady quiet_env (calls st0)
   \<and> \<not> isTransportReady quiet_env (calls st0 @ replicate 1 Process)
   \<and> waited quiet_env st0 0 < min 5000 (MY_SLEEP_TRANSPORT_RECONNECT_TIMEOUT_MS quiet_env)
   \<and> waited quiet_env st0 1 < min 5000 (MY_SLEEP_TRANSPORT_RECONNECT_TIMEOUT_MS quiet_env)
   \<and> (5000 :: u32) \<le> waited quiet_env st0 2
   \<and> snooze quiet_env 5000 False st0 =
           Some (MY_SLEEP_NOT_POSSIBLE quiet_env, st0\<lparr>calls := calls st0 @ replicate 2 Process\<rparr>)
   \<and> waited quiet_env st0 3 < min 10015 (MY_SLEEP_TRANSPORT_RECONNECT_TIMEOUT_MS quiet_env)
   \<and> waited quiet_env st0 4 < 10015
   \<and> MY_SLEEP_TRANSPORT_RECONNECT_TIMEOUT_MS quiet_env \<le> waited quiet_env st0 4
   \<and> snooze quiet_env 10015 False st0 =
           Some (snooze_sleep quiet_env (10015 - waited quiet_env st0 4) False
                   (st0\<lparr>calls := calls st0 @ replicate 4 Process\<rparr>))"
proof -
  have h1: "\<not> isTransportReady quiet_env (calls st0)" by (simp add: quiet_env_def)
  have h2: "\<forall>n<2. \<not> isTransportReady quiet_env (calls st0 @ replicate n Process)
              \<and> waited quiet_env st0 n < min 5000 (MY_SLEEP_TRANSPORT_RECONNECT_TIMEOUT_MS quiet_env)"
  proof (intro allI impI)
    fix n :: nat
    assume "n < 2"
    then consider "n = 0" | "n = 1" by linarith
    then show "\<not> isTransportReady quiet_env (calls st0 @ replicate n Process)
              \<and> waited quiet_env st0 n < min 5000 (MY_SLEEP_TRANSPORT_RECONNECT_TIMEOUT_MS quiet_env)"
      by cases (simp_all add: quiet_env_def st0_def waited_def waited_from_def)
  qed
  have h3: "\<forall>n<4. \<not> isTransportReady quiet_env (calls st0 @ replicate n Process)
              \<and> waited quiet_env st0 n < min 10015 (MY_SLEEP_TRANSPORT_RECONNECT_TIMEOUT_MS quiet_env)"
  proof (intro allI impI)
    fix n :: nat
    assume "n < 4"
    then consider "n = 0" | "n = 1" | "n = 2" | "n = 3" by linarith
    then show "\<not> isTransportReady quiet_env (calls st0 @ replicate n Process)
              \<and> waited quiet_env st0 n < min 10015 (MY_SLEEP_TRANSPORT_RECONNECT_TIMEOUT_MS quiet_env)"
      by cases (simp_all add: quiet_env_def st0_def waited_def waited_from_def)
  qed
  have g: "\<not> isTransportReady quiet_env (calls st0 @ replicate 1 Process)
      \<and> waited quiet_env st0 0 < min 5000 (MY_SLEEP_TRANSPORT_RECONNECT_TIMEOUT_MS quiet_env)
      \<and> waited quiet_env st0 1 < min 5000 (MY_SLEEP_TRANSPORT_RECONNECT_TIMEOUT_MS quiet_env)
      \<and> (5000 :: u32) \<le> waited quiet_env st0 2
      \<and> waited quiet_env st0 3 < min 10015 (MY_SLEEP_TRANSPORT_RECONNECT_TIMEOUT_MS quiet_env)
      \<and> waited quiet_env st0 4 < 10015
      \<and> MY_SLEEP_TRANSPORT_RECONNECT_TIMEOUT_MS quiet_env \<le> waited quiet_env st0 4"
    by (simp add: quiet_env_def st0_def waited_def waited_from_def)
  from snooze_after_waiting [OF h1 h2, of False] snooze_after_waiting [OF h1 h3, of False] h1 g
  show ?thesis by blast
qed

text \<open>
  With \<open>ms\<close> above the timeout the function does not give up when the timeout has
  passed with the transport still not ready: of 10015 ms it waits 10000, in four
  passes of its loop, and then sleeps the remaining 15.
\<close>

theorem snooze_sleeps_past_deadline:
  "\<not> isTransportReady quiet_env (calls st0 @ replicate 4 Process)
   \<and> waited quiet_env st0 4 = MY_SLEEP_TRANSPORT_RECONNECT_TIMEOUT_MS quiet_env
   \<and> map_option (calls \<circ> snd) (snooze quiet_env 10015 False st0) =
       Some [Process, Process, Process, Process, TransportDisable,
             SetIndication INDICATION_SLEEP, SetIndication INDICATION_WAKEUP]
   \<and> map_option fst (snooze quiet_env 10015 False st0) = Some (MY_WAKE_UP_BY_TIMER quiet_env)
   \<and> map_option (trace \<circ> snd) (snooze quiet_env 10015 False st0) = Some [PowerDown WDTO_15MS 0 0, Tick 0]
   \<and> MY_SLEEP_NOT_POSSIBLE quiet_env \<noteq> MY_WAKE_UP_BY_TIMER quiet_env"
  by code_simp

end
